theory Spec2Isabelle
  imports Main
begin

section \<open>EnvelopeService: data model\<close>

text \<open>
  Keys are strings (base58 verification keys in the source). An absent optional value
  (\<open>null\<close> or \<open>undefined\<close>) is \<open>None\<close>.
\<close>

type_synonym key = string

record EnvelopeKeys =
  recipientKeys :: "key list"
  routingKeys :: "key list"
  senderKey :: "key option"

text \<open>
  The two options the source passes to \<open>new ForwardMessage\<close>; the class itself is
  declared outside the sources at hand, and a message object is identified with these
  two options (whatever else the constructor adds, such as an id, is outside the model).
  The field \<open>to\<close> is optional because the source fills it with \<open>recipientKeys[0]\<close>,
  which is \<open>undefined\<close> for an empty array.
\<close>

record 'w ForwardMessage =
  to :: "key option"
  message :: 'w

text \<open>
  Modelled from the spec: the type \<open>UnpackedMessageContext\<close> is declared outside the
  sources at hand; the fields are the three the specification lists for the result of
  one decryption step.
\<close>

record 'j UnpackedMessageContext =
  message :: 'j
  senderKey :: "key option"
  recipientKey :: "key option"

text \<open>
  The injected wallet. Its two operations are effectful and may throw, so each takes the
  wallet's state and returns the outcome (\<open>Inl\<close> the thrown value) with the new state.
  The type variables: \<open>'j\<close> serialized messages, \<open>'w\<close> wire messages, \<open>'e\<close> what the
  wallet throws, \<open>'s\<close> the wallet's state.
\<close>

record ('j, 'w, 'e, 's) Wallet =
  pack :: "'j \<Rightarrow> key list \<Rightarrow> key option \<Rightarrow> 's \<Rightarrow> ('e + 'w) \<times> 's"
  unpack :: "'w \<Rightarrow> 's \<Rightarrow> ('e + 'j UnpackedMessageContext) \<times> 's"

record AgentConfig =
  useLegacyDidSovPrefix :: bool

record ('j, 'w, 'e, 's) EnvelopeService =
  wallet :: "('j, 'w, 'e, 's) Wallet"
  config :: AgentConfig

text \<open>
  The \<open>toJSON\<close> methods of \<open>AgentMessage\<close> (type \<open>'p\<close>) and of \<open>ForwardMessage\<close>; both
  classes are declared outside the sources at hand, so the methods are parameters. The
  boolean is the option \<open>useLegacyDidSovPrefix\<close>. Serialization, like the logger and the
  constructor of \<open>ForwardMessage\<close>, is taken to return normally; only the wallet throws.
\<close>

record ('p, 'j, 'w) MessageClasses =
  agentMessage_toJSON :: "'p \<Rightarrow> bool \<Rightarrow> 'j"
  forwardMessage_toJSON :: "'w ForwardMessage \<Rightarrow> bool \<Rightarrow> 'j"

text \<open>
  What a call of \<open>packMessage\<close> does to its collaborators, in program order: the
  serializations with the flag they receive, the two logger calls with their data, and
  the invocations of \<open>wallet.pack\<close> with their three arguments and their outcome.
\<close>

datatype ('j, 'w, 'e) event =
    ToJSON_payload bool
  | Debug_pack_outbound 'j
  | Pack 'j "key list" "key option" "'e + 'w"
  | Debug_forward_created "'w ForwardMessage"
  | ToJSON_forward "'w ForwardMessage" bool

text \<open>
  The state a call runs in: the wallet's state, the events so far (oldest first), the
  caller's \<open>keys\<close> object as it stands, and the local variable \<open>recipientKeys\<close>.
\<close>

record ('j, 'w, 'e, 's) PackState =
  walletState :: 's
  events :: "('j, 'w, 'e) event list"
  keysArg :: EnvelopeKeys
  recipientKeysVar :: "key list"

section \<open>EnvelopeService: operations\<close>

text \<open>JavaScript's \<open>xs[0]\<close>: \<open>undefined\<close> on an empty array, no exception.\<close>

fun index0 :: "'a list \<Rightarrow> 'a option" where
  "index0 [] = None"
| "index0 (x # _) = Some x"

definition emit :: "('j, 'w, 'e) event \<Rightarrow> ('j, 'w, 'e, 's) PackState \<Rightarrow> ('j, 'w, 'e, 's) PackState" where
  "emit ev st = st\<lparr>events := events st @ [ev]\<rparr>"

text \<open>
  \<open>await this.wallet.pack(json, rks, sk)\<close>: runs the wallet on its current state and
  records the invocation with the keys the array holds when it is passed. What the
  wallet leaves in that array is the business of \<open>packMessage_inPlace\<close> below.
\<close>

definition callPack ::
  "('j, 'w, 'e, 's) EnvelopeService \<Rightarrow> 'j \<Rightarrow> key list \<Rightarrow> key option \<Rightarrow>
   ('j, 'w, 'e, 's) PackState \<Rightarrow> ('e + 'w) \<times> ('j, 'w, 'e, 's) PackState" where
  "callPack E json rks sk st =
     (case pack (wallet E) json rks sk (walletState st) of
        (r, s') \<Rightarrow> (r, emit (Pack json rks sk r) (st\<lparr>walletState := s'\<rparr>)))"

text \<open>
  The body of \<open>for (const routingKey of routingKeys)\<close>, one equation per state of the
  iteration; a thrown value leaves the loop and the function.
\<close>

fun forwardLoop ::
  "('j, 'w, 'e, 's) EnvelopeService \<Rightarrow> ('p, 'j, 'w) MessageClasses \<Rightarrow> key list \<Rightarrow> 'w \<Rightarrow>
   ('j, 'w, 'e, 's) PackState \<Rightarrow> ('e + 'w) \<times> ('j, 'w, 'e, 's) PackState" where
  "forwardLoop E M [] wireMessage st = (Inr wireMessage, st)"
| "forwardLoop E M (routingKey # rest) wireMessage st =
     (let forwardMessage = \<lparr>to = index0 (recipientKeysVar st), message = wireMessage\<rparr>;
          st1 = st\<lparr>recipientKeysVar := [routingKey]\<rparr>;
          st2 = emit (Debug_forward_created forwardMessage) st1;
          flag = useLegacyDidSovPrefix (config E);
          forwardJson = forwardMessage_toJSON M forwardMessage flag;
          st3 = emit (ToJSON_forward forwardMessage flag) st2
      in case callPack E forwardJson [routingKey] None st3 of
           (Inl err, st4) \<Rightarrow> (Inl err, st4)
         | (Inr wireMessage', st4) \<Rightarrow> forwardLoop E M rest wireMessage' st4)"

definition packMessage ::
  "('j, 'w, 'e, 's) EnvelopeService \<Rightarrow> ('p, 'j, 'w) MessageClasses \<Rightarrow> 'p \<Rightarrow> EnvelopeKeys \<Rightarrow>
   's \<Rightarrow> ('e + 'w) \<times> ('j, 'w, 'e, 's) PackState" where
  "packMessage E M payload keys s =
     (let st0 = \<lparr>walletState = s, events = [], keysArg = keys,
                 recipientKeysVar = EnvelopeKeys.recipientKeys keys\<rparr>;
          flag = useLegacyDidSovPrefix (config E);
          msg = agentMessage_toJSON M payload flag;
          st1 = emit (ToJSON_payload flag) st0;
          st2 = emit (Debug_pack_outbound msg) st1
      in case callPack E msg (recipientKeysVar st2) (EnvelopeKeys.senderKey keys) st2 of
           (Inl err, st3) \<Rightarrow> (Inl err, st3)
         | (Inr wireMessage, st3) \<Rightarrow>
             forwardLoop E M (EnvelopeKeys.routingKeys keys) wireMessage st3)"

definition unpackMessage ::
  "('j, 'w, 'e, 's) EnvelopeService \<Rightarrow> 'w \<Rightarrow> 's \<Rightarrow> ('e + 'j UnpackedMessageContext) \<times> 's" where
  "unpackMessage E packedMessage s = unpack (wallet E) packedMessage s"

text \<open>
  Arrays are objects. The first call, \<open>this.wallet.pack(message, recipientKeys, ...)\<close>, is
  passed the caller's array \<open>keys.recipientKeys\<close> itself, and a wallet may write to it;
  \<open>packMessage\<close> above is the function for the wallets that leave it as it is. The
  variant below takes as \<open>packLeaves\<close> the content the wallet's call leaves in the array
  it is passed, whether it returns or throws. After the first call that content is what
  \<open>keys.recipientKeys\<close> and the local variable \<open>recipientKeys\<close>, still the same array,
  both hold. In the loop the wallet is passed a fresh array \<open>[routingKey]\<close> that nothing
  else refers to, so what it leaves there is not observable, and the local variable is
  bound to another fresh array. The arrays \<open>keys.recipientKeys\<close> and \<open>keys.routingKeys\<close>
  are taken to be distinct objects.
\<close>

definition packMessage_inPlace ::
  "('j, 'w, 'e, 's) EnvelopeService \<Rightarrow> ('j \<Rightarrow> key list \<Rightarrow> key option \<Rightarrow> 's \<Rightarrow> key list) \<Rightarrow>
   ('p, 'j, 'w) MessageClasses \<Rightarrow> 'p \<Rightarrow> EnvelopeKeys \<Rightarrow>
   's \<Rightarrow> ('e + 'w) \<times> ('j, 'w, 'e, 's) PackState" where
  "packMessage_inPlace E packLeaves M payload keys s =
     (let st0 = \<lparr>walletState = s, events = [], keysArg = keys,
                 recipientKeysVar = EnvelopeKeys.recipientKeys keys\<rparr>;
          flag = useLegacyDidSovPrefix (config E);
          msg = agentMessage_toJSON M payload flag;
          st1 = emit (ToJSON_payload flag) st0;
          st2 = emit (Debug_pack_outbound msg) st1;
          arr = packLeaves msg (recipientKeysVar st2) (EnvelopeKeys.senderKey keys) s
      in case callPack E msg (recipientKeysVar st2) (EnvelopeKeys.senderKey keys) st2 of
           (r, st3) \<Rightarrow>
             (let st3' = st3\<lparr>keysArg := (keysArg st3)\<lparr>recipientKeys := arr\<rparr>,
                             recipientKeysVar := arr\<rparr>
              in case r of
                   Inl err \<Rightarrow> (Inl err, st3')
                 | Inr wireMessage \<Rightarrow>
                     forwardLoop E M (EnvelopeKeys.routingKeys keys) wireMessage st3'))"

section \<open>Reading a trace\<close>

text \<open>
  The invocations of \<open>wallet.pack\<close> in a trace, in order: the three arguments and the
  outcome of each.
\<close>

record ('j, 'w, 'e) packCall =
  callMessage :: 'j
  callRecipientKeys :: "key list"
  callSenderKey :: "key option"
  callOutcome :: "'e + 'w"

fun packCalls :: "('j, 'w, 'e) event list \<Rightarrow> ('j, 'w, 'e) packCall list" where
  "packCalls [] = []"
| "packCalls (Pack j rks sk r # evs) =
     \<lparr>callMessage = j, callRecipientKeys = rks, callSenderKey = sk, callOutcome = r\<rparr> # packCalls evs"
| "packCalls (_ # evs) = packCalls evs"

text \<open>The forward messages constructed, in order (hop 0 first).\<close>

fun forwards :: "('j, 'w, 'e) event list \<Rightarrow> 'w ForwardMessage list" where
  "forwards [] = []"
| "forwards (Debug_forward_created fm # evs) = fm # forwards evs"
| "forwards (_ # evs) = forwards evs"

text \<open>The flag each serialization received, in order.\<close>

fun serializationFlags :: "('j, 'w, 'e) event list \<Rightarrow> bool list" where
  "serializationFlags [] = []"
| "serializationFlags (ToJSON_payload b # evs) = b # serializationFlags evs"
| "serializationFlags (ToJSON_forward fm b # evs) = b # serializationFlags evs"
| "serializationFlags (_ # evs) = serializationFlags evs"

section \<open>IndyIssuerService: data model\<close>

text \<open>
  What \<open>createCredential\<close> can throw: an \<open>AriesFrameworkError\<close> with its message, an
  \<open>IndySdkError\<close> wrapping the value it was made from, or any other value \<open>'x\<close> that a
  collaborator threw.
\<close>

datatype 'x error =
    AriesFrameworkError string
  | IndySdkError "'x error"
  | Foreign 'x

record ('o, 'r, 'v) CreateCredentialOptions =
  credentialOffer :: 'o
  credentialRequest :: 'r
  credentialValues :: 'v
  revocationRegistryId :: "string option"
  tailsFilePath :: "string option"

text \<open>
  The collaborators of the service: the two Indy SDK functions it calls, the wallet's
  \<open>handle\<close> property (read from the state; a getter may throw) and the file system.
  \<open>'c\<close> is the type of a credential, \<open>'s\<close> the state of the outside world.
\<close>

record ('o, 'r, 'v, 'c, 'x, 's) IndyIssuerService =
  indy_issuerCreateCredential ::
    "int \<Rightarrow> 'o \<Rightarrow> 'r \<Rightarrow> 'v \<Rightarrow> string option \<Rightarrow> int \<Rightarrow> 's \<Rightarrow> ('x error + 'c \<times> string) \<times> 's"
  indy_openBlobStorageReader :: "string \<Rightarrow> string \<Rightarrow> 's \<Rightarrow> ('x error + int) \<times> 's"
  wallet_handle :: "'s \<Rightarrow> 'x error + int"
  fileSystem_exists :: "string \<Rightarrow> 's \<Rightarrow> ('x error + bool) \<times> 's"

text \<open>
  The helpers \<open>isIndyError\<close> and \<open>getDirFromFilePath\<close> are imported from modules outside
  the sources at hand, so they are parameters.
\<close>

record 'x Utils =
  isIndyError :: "'x error \<Rightarrow> bool"
  getDirFromFilePath :: "string \<Rightarrow> string"

datatype ('o, 'r, 'v) indyEvent =
    FileSystem_exists string
  | OpenBlobStorageReader string string
  | IssuerCreateCredential int 'o 'r 'v "string option" int

record ('o, 'r, 'v, 's) IssuerState =
  world :: 's
  calls :: "('o, 'r, 'v) indyEvent list"

section \<open>IndyIssuerService: operations\<close>

text \<open>JavaScript truthiness of a \<open>string | undefined\<close>: absent and empty are falsy.\<close>

fun truthy :: "string option \<Rightarrow> bool" where
  "truthy None = False"
| "truthy (Some s) = (s \<noteq> [])"

text \<open>
  The handler both methods share:
  \<open>catch (error) { if (isIndyError(error)) throw new IndySdkError(error); throw error }\<close>.
\<close>

definition catchIndy :: "'x Utils \<Rightarrow> ('x error + 'a) \<times> 't \<Rightarrow> ('x error + 'a) \<times> 't" where
  "catchIndy U res =
     (case res of
        (Inl err, st) \<Rightarrow> (Inl (if isIndyError U err then IndySdkError err else err), st)
      | (Inr v, st) \<Rightarrow> (Inr v, st))"

definition callExists ::
  "('o, 'r, 'v, 'c, 'x, 's) IndyIssuerService \<Rightarrow> string \<Rightarrow> ('o, 'r, 'v, 's) IssuerState \<Rightarrow>
   ('x error + bool) \<times> ('o, 'r, 'v, 's) IssuerState" where
  "callExists S path st =
     (case fileSystem_exists S path (world st) of
        (r, s') \<Rightarrow> (r, \<lparr>world = s', calls = calls st @ [FileSystem_exists path]\<rparr>))"

definition callOpenBlobStorageReader ::
  "('o, 'r, 'v, 'c, 'x, 's) IndyIssuerService \<Rightarrow> string \<Rightarrow> string \<Rightarrow>
   ('o, 'r, 'v, 's) IssuerState \<Rightarrow> ('x error + int) \<times> ('o, 'r, 'v, 's) IssuerState" where
  "callOpenBlobStorageReader S ty base_dir st =
     (case indy_openBlobStorageReader S ty base_dir (world st) of
        (r, s') \<Rightarrow> (r, \<lparr>world = s', calls = calls st @ [OpenBlobStorageReader ty base_dir]\<rparr>))"

definition callIssuerCreateCredential ::
  "('o, 'r, 'v, 'c, 'x, 's) IndyIssuerService \<Rightarrow> int \<Rightarrow> 'o \<Rightarrow> 'r \<Rightarrow> 'v \<Rightarrow> string option \<Rightarrow> int \<Rightarrow>
   ('o, 'r, 'v, 's) IssuerState \<Rightarrow> ('x error + 'c \<times> string) \<times> ('o, 'r, 'v, 's) IssuerState" where
  "callIssuerCreateCredential S h off req vals revId tails st =
     (case indy_issuerCreateCredential S h off req vals revId tails (world st) of
        (r, s') \<Rightarrow>
          (r, \<lparr>world = s', calls = calls st @ [IssuerCreateCredential h off req vals revId tails]\<rparr>))"

definition createTailsReader ::
  "('o, 'r, 'v, 'c, 'x, 's) IndyIssuerService \<Rightarrow> 'x Utils \<Rightarrow> string \<Rightarrow>
   ('o, 'r, 'v, 's) IssuerState \<Rightarrow> ('x error + int) \<times> ('o, 'r, 'v, 's) IssuerState" where
  "createTailsReader S U path st =
     catchIndy U
       (case callExists S path st of
          (Inl err, st1) \<Rightarrow> (Inl err, st1)
        | (Inr tailsFileExists, st1) \<Rightarrow>
            (let dirname = getDirFromFilePath U path
             in if \<not> tailsFileExists
                then (Inl (AriesFrameworkError (''Tails file does not exist at path '' @ path)), st1)
                else callOpenBlobStorageReader S ''default'' dirname st1))"

definition createCredential ::
  "('o, 'r, 'v, 'c, 'x, 's) IndyIssuerService \<Rightarrow> 'x Utils \<Rightarrow> ('o, 'r, 'v) CreateCredentialOptions \<Rightarrow>
   ('o, 'r, 'v, 's) IssuerState \<Rightarrow> ('x error + 'c \<times> string) \<times> ('o, 'r, 'v, 's) IssuerState" where
  "createCredential S U opts st =
     catchIndy U
       (case (case tailsFilePath opts of
                None \<Rightarrow> (Inr 0, st)
              | Some path \<Rightarrow> if path \<noteq> [] then createTailsReader S U path st else (Inr 0, st)) of
          (Inl err, st1) \<Rightarrow> (Inl err, st1)
        | (Inr tailsReaderHandle, st1) \<Rightarrow>
            if truthy (revocationRegistryId opts) \<or> truthy (tailsFilePath opts)
            then (Inl (AriesFrameworkError ''Revocation not supported yet''), st1)
            else (case wallet_handle S (world st1) of
                    Inl err \<Rightarrow> (Inl err, st1)
                  | Inr h \<Rightarrow>
                      (case callIssuerCreateCredential S h (credentialOffer opts)
                              (credentialRequest opts) (credentialValues opts)
                              (revocationRegistryId opts) tailsReaderHandle st1 of
                         (Inl err, st2) \<Rightarrow> (Inl err, st2)
                       | (Inr (credential, credentialRevocationId), st2) \<Rightarrow>
                           (Inr (credential, credentialRevocationId), st2))))"

text \<open>The invocations of \<open>indy.issuerCreateCredential\<close> in a list of calls.\<close>

fun issuerCalls ::
  "('o, 'r, 'v) indyEvent list \<Rightarrow> (int \<times> 'o \<times> 'r \<times> 'v \<times> string option \<times> int) list" where
  "issuerCalls [] = []"
| "issuerCalls (IssuerCreateCredential h off req vals revId tails # evs) =
     (h, off, req, vals, revId, tails) # issuerCalls evs"
| "issuerCalls (_ # evs) = issuerCalls evs"

section \<open>Test doubles\<close>

text \<open>
  A wallet and message classes small enough to run. A wire message is the sealed
  plaintext with the keys it was packed for; a serialized message carries the flag it
  was serialized with. Packing for a key listed in \<open>unknown\<close> fails with the wallet's one
  error, which names neither key nor position.
\<close>

datatype testJson = Msg bool string | Fwd bool "key option" testWire
and testWire = Sealed testJson "key list" "key option"

datatype testWalletError = WalletItemNotFound

definition testWallet :: "key list \<Rightarrow> (testJson, testWire, testWalletError, nat) Wallet" where
  "testWallet unknown =
     \<lparr>pack = (\<lambda>j rks sk n.
         if list_ex (\<lambda>k. k \<in> set unknown) rks then (Inl WalletItemNotFound, Suc n)
         else (Inr (Sealed j rks sk), Suc n)),
      unpack = (\<lambda>w n. case w of Sealed j rks sk \<Rightarrow>
         (Inr \<lparr>message = j, senderKey = sk, recipientKey = index0 rks\<rparr>, Suc n))\<rparr>"

definition testService :: "key list \<Rightarrow> bool \<Rightarrow> (testJson, testWire, testWalletError, nat) EnvelopeService" where
  "testService unknown legacy =
     \<lparr>wallet = testWallet unknown, config = \<lparr>useLegacyDidSovPrefix = legacy\<rparr>\<rparr>"

definition testClasses :: "(string, testJson, testWire) MessageClasses" where
  "testClasses =
     \<lparr>agentMessage_toJSON = (\<lambda>p b. Msg b p),
      forwardMessage_toJSON = (\<lambda>fm b. Fwd b (to fm) (ForwardMessage.message fm))\<rparr>"

text \<open>What a wallet that does not write leaves in the array it is passed.\<close>

definition testLeave :: "testJson \<Rightarrow> key list \<Rightarrow> key option \<Rightarrow> nat \<Rightarrow> key list" where
  "testLeave j rks sk n = rks"

text \<open>A wallet that appends a key of its own to the recipient array it is passed.\<close>

definition testScribble :: "testJson \<Rightarrow> key list \<Rightarrow> key option \<Rightarrow> nat \<Rightarrow> key list" where
  "testScribble j rks sk n = rks @ [''X'']"

text \<open>
  An issuer whose file system holds exactly the paths listed, whose blob reader handle
  is 7 and whose wallet handle is 1; it throws nothing of its own.
\<close>

definition testIssuer :: "string list \<Rightarrow> (string, string, string, string, unit, nat) IndyIssuerService" where
  "testIssuer files =
     \<lparr>indy_issuerCreateCredential = (\<lambda>h off req vals revId tails n. (Inr (''cred'', ''1''), Suc n)),
      indy_openBlobStorageReader = (\<lambda>ty dir n. (Inr 7, Suc n)),
      wallet_handle = (\<lambda>n. Inr 1),
      fileSystem_exists = (\<lambda>path n. (Inr (path \<in> set files), n))\<rparr>"

definition testUtils :: "unit Utils" where
  "testUtils =
     \<lparr>isIndyError = (\<lambda>err. case err of Foreign _ \<Rightarrow> True | _ \<Rightarrow> False),
      getDirFromFilePath = (\<lambda>path. rev (drop 1 (dropWhile (\<lambda>c. c \<noteq> CHR ''/'') (rev path))))\<rparr>"

section \<open>Traces of the forwarding loop\<close>

lemma packCalls_append: "packCalls (xs @ ys) = packCalls xs @ packCalls ys"
  by (induction xs rule: packCalls.induct) simp_all

lemma forwards_append: "forwards (xs @ ys) = forwards xs @ forwards ys"
  by (induction xs rule: forwards.induct) simp_all

lemma serializationFlags_append:
  "serializationFlags (xs @ ys) = serializationFlags xs @ serializationFlags ys"
  by (induction xs rule: serializationFlags.induct) simp_all

lemma issuerCalls_append: "issuerCalls (xs @ ys) = issuerCalls xs @ issuerCalls ys"
  by (induction xs rule: issuerCalls.induct) simp_all

lemma forwardLoop_keysArg:
  "forwardLoop E M rks w st = (r, st') \<Longrightarrow> keysArg st' = keysArg st"
  by (induction rks arbitrary: w st)
    (auto simp: callPack_def emit_def Let_def split: sum.splits prod.splits)

lemma forwardLoop_step:
  assumes "forwardLoop E M (k # rest) w st = (r, st')"
  shows "\<exists>st4 out.
    out = fst (pack (wallet E)
      (forwardMessage_toJSON M \<lparr>to = index0 (recipientKeysVar st), message = w\<rparr>
         (useLegacyDidSovPrefix (config E))) [k] None (walletState st)) \<and>
    events st4 = events st @
       [Debug_forward_created \<lparr>to = index0 (recipientKeysVar st), message = w\<rparr>,
        ToJSON_forward \<lparr>to = index0 (recipientKeysVar st), message = w\<rparr>
          (useLegacyDidSovPrefix (config E)),
        Pack (forwardMessage_toJSON M \<lparr>to = index0 (recipientKeysVar st), message = w\<rparr>
          (useLegacyDidSovPrefix (config E))) [k] None out] \<and>
    keysArg st4 = keysArg st \<and>
    recipientKeysVar st4 = [k] \<and>
    ((\<exists>e. out = Inl e \<and> r = Inl e \<and> st' = st4) \<or>
     (\<exists>w1. out = Inr w1 \<and> forwardLoop E M rest w1 st4 = (r, st')))"
proof -
  let ?fm = "\<lparr>to = index0 (recipientKeysVar st), message = w\<rparr>"
  let ?fj = "forwardMessage_toJSON M ?fm (useLegacyDidSovPrefix (config E))"
  obtain out s1 where pk: "pack (wallet E) ?fj [k] None (walletState st) = (out, s1)"
    by (cases "pack (wallet E) ?fj [k] None (walletState st)")
  let ?st4 = "st\<lparr>recipientKeysVar := [k], walletState := s1,
      events := events st @ [Debug_forward_created ?fm,
        ToJSON_forward ?fm (useLegacyDidSovPrefix (config E)), Pack ?fj [k] None out]\<rparr>"
  have "(\<exists>e. out = Inl e \<and> r = Inl e \<and> st' = ?st4) \<or>
        (\<exists>w1. out = Inr w1 \<and> forwardLoop E M rest w1 ?st4 = (r, st'))"
  proof (cases out)
    case (Inl e)
    with assms pk show ?thesis by (auto simp: callPack_def emit_def Let_def)
  next
    case (Inr w1)
    with assms pk show ?thesis by (auto simp: callPack_def emit_def Let_def)
  qed
  then show ?thesis
    by (intro exI[of _ ?st4] exI[of _ out]) (simp add: pk)
qed

lemma forwardLoop_flags:
  "forwardLoop E M rks w st = (r, st') \<Longrightarrow>
   \<exists>n. serializationFlags (events st') =
     serializationFlags (events st) @ replicate n (useLegacyDidSovPrefix (config E)) \<and>
     length (forwards (events st')) = length (forwards (events st)) + n"
proof (induction rks arbitrary: w st)
  case Nil
  then show ?case by simp
next
  case (Cons k rest)
  let ?flag = "useLegacyDidSovPrefix (config E)"
  let ?fm = "\<lparr>to = index0 (recipientKeysVar st), message = w\<rparr>"
  from forwardLoop_step[OF Cons.prems] obtain st4 out where
    ev: "events st4 = events st @
       [Debug_forward_created ?fm, ToJSON_forward ?fm ?flag,
        Pack (forwardMessage_toJSON M ?fm ?flag) [k] None out]"
    and alt: "(\<exists>e. out = Inl e \<and> r = Inl e \<and> st' = st4) \<or>
     (\<exists>w1. out = Inr w1 \<and> forwardLoop E M rest w1 st4 = (r, st'))"
    by blast
  have here: "serializationFlags (events st4) = serializationFlags (events st) @ replicate 1 ?flag"
    "length (forwards (events st4)) = length (forwards (events st)) + 1"
    by (simp_all add: ev serializationFlags_append forwards_append)
  from alt show ?case
  proof
    assume "\<exists>e. out = Inl e \<and> r = Inl e \<and> st' = st4"
    with here show ?thesis by blast
  next
    assume "\<exists>w1. out = Inr w1 \<and> forwardLoop E M rest w1 st4 = (r, st')"
    then obtain w1 where "forwardLoop E M rest w1 st4 = (r, st')" by blast
    from Cons.IH[OF this] obtain n where
      "serializationFlags (events st') = serializationFlags (events st4) @ replicate n ?flag"
      "length (forwards (events st')) = length (forwards (events st4)) + n" by blast
    with here have
      "serializationFlags (events st') = serializationFlags (events st) @ replicate (Suc n) ?flag"
      "length (forwards (events st')) = length (forwards (events st)) + Suc n"
      by (simp_all add: replicate_app_Cons_same)
    then show ?thesis by blast
  qed
qed

lemma forwardLoop_to:
  "forwardLoop E M rks w st = (r, st') \<Longrightarrow>
   \<exists>new. forwards (events st') = forwards (events st) @ new \<and> length new \<le> length rks \<and>
         ((\<exists>w'. r = Inr w') \<longrightarrow> length new = length rks) \<and>
         map to new = take (length new) (index0 (recipientKeysVar st) # map Some rks)"
proof (induction rks arbitrary: w st)
  case Nil
  then show ?case by simp
next
  case (Cons k rest)
  let ?flag = "useLegacyDidSovPrefix (config E)"
  let ?fm = "\<lparr>to = index0 (recipientKeysVar st), message = w\<rparr>"
  from forwardLoop_step[OF Cons.prems] obtain st4 out where
    ev: "events st4 = events st @
       [Debug_forward_created ?fm, ToJSON_forward ?fm ?flag,
        Pack (forwardMessage_toJSON M ?fm ?flag) [k] None out]"
    and rk: "recipientKeysVar st4 = [k]"
    and alt: "(\<exists>e. out = Inl e \<and> r = Inl e \<and> st' = st4) \<or>
     (\<exists>w1. out = Inr w1 \<and> forwardLoop E M rest w1 st4 = (r, st'))"
    by blast
  have here: "forwards (events st4) = forwards (events st) @ [?fm]"
    by (simp add: ev forwards_append)
  from alt show ?case
  proof
    assume "\<exists>e. out = Inl e \<and> r = Inl e \<and> st' = st4"
    then have "forwards (events st') = forwards (events st) @ [?fm]" "\<not> (\<exists>w'. r = Inr w')"
      using here by auto
    then show ?thesis
      by (intro exI[of _ "[?fm]"]) simp
  next
    assume "\<exists>w1. out = Inr w1 \<and> forwardLoop E M rest w1 st4 = (r, st')"
    then obtain w1 where "forwardLoop E M rest w1 st4 = (r, st')" by blast
    from Cons.IH[OF this] obtain new where new:
      "forwards (events st') = forwards (events st4) @ new" "length new \<le> length rest"
      "(\<exists>w'. r = Inr w') \<longrightarrow> length new = length rest"
      "map to new = take (length new) (index0 (recipientKeysVar st4) # map Some rest)" by blast
    show ?thesis
      using new here by (intro exI[of _ "?fm # new"]) (simp add: rk)
  qed
qed


lemma forwardLoop_packs:
  "forwardLoop E M rks w st = (r, st') \<Longrightarrow>
   \<exists>new ws. packCalls (events st') = packCalls (events st) @ new \<and>
     length new \<le> length rks \<and>
     ((\<exists>w'. r = Inr w') \<longrightarrow> length new = length rks) \<and>
     (\<forall>c \<in> set new. callSenderKey c = None) \<and>
     map callOutcome new = map Inr ws @ (case r of Inl e \<Rightarrow> [Inl e] | Inr w' \<Rightarrow> [])"
proof (induction rks arbitrary: w st)
  case Nil
  then show ?case by auto
next
  case (Cons k rest)
  let ?flag = "useLegacyDidSovPrefix (config E)"
  let ?fm = "\<lparr>to = index0 (recipientKeysVar st), message = w\<rparr>"
  let ?fj = "forwardMessage_toJSON M ?fm ?flag"
  from forwardLoop_step[OF Cons.prems] obtain st4 out where
    ev: "events st4 = events st @
       [Debug_forward_created ?fm, ToJSON_forward ?fm ?flag, Pack ?fj [k] None out]"
    and alt: "(\<exists>e. out = Inl e \<and> r = Inl e \<and> st' = st4) \<or>
     (\<exists>w1. out = Inr w1 \<and> forwardLoop E M rest w1 st4 = (r, st'))"
    by blast
  let ?c = "\<lparr>callMessage = ?fj, callRecipientKeys = [k], callSenderKey = None, callOutcome = out\<rparr>"
  have here: "packCalls (events st4) = packCalls (events st) @ [?c]"
    by (simp add: ev packCalls_append)
  from alt show ?case
  proof
    assume "\<exists>e. out = Inl e \<and> r = Inl e \<and> st' = st4"
    then obtain e where e: "out = Inl e" "r = Inl e" "st' = st4" by blast
    show ?thesis
      using here e by (intro exI[of _ "[?c]"] exI[of _ "[]"]) simp
  next
    assume "\<exists>w1. out = Inr w1 \<and> forwardLoop E M rest w1 st4 = (r, st')"
    then obtain w1 where w1: "out = Inr w1" "forwardLoop E M rest w1 st4 = (r, st')" by blast
    from Cons.IH[OF w1(2)] obtain new ws where new:
      "packCalls (events st') = packCalls (events st4) @ new" "length new \<le> length rest"
      "(\<exists>w'. r = Inr w') \<longrightarrow> length new = length rest"
      "\<forall>c \<in> set new. callSenderKey c = None"
      "map callOutcome new = map Inr ws @ (case r of Inl e \<Rightarrow> [Inl e] | Inr w' \<Rightarrow> [])"
      by blast
    show ?thesis
      using new here w1(1) by (intro exI[of _ "?c # new"] exI[of _ "w1 # ws"]) simp
  qed
qed

lemma forwardLoop_final:
  "forwardLoop E M rks w st = (Inr w', st') \<Longrightarrow> rks \<noteq> [] \<Longrightarrow>
   \<exists>s0. fst (pack (wallet E)
          (forwardMessage_toJSON M (last (forwards (events st'))) (useLegacyDidSovPrefix (config E)))
          [last rks] None s0) = Inr w'"
proof (induction rks arbitrary: w st)
  case Nil
  then show ?case by simp
next
  case (Cons k rest)
  let ?flag = "useLegacyDidSovPrefix (config E)"
  let ?fm = "\<lparr>to = index0 (recipientKeysVar st), message = w\<rparr>"
  let ?fj = "forwardMessage_toJSON M ?fm ?flag"
  from forwardLoop_step[OF Cons.prems(1)] obtain st4 out where
    out: "out = fst (pack (wallet E) ?fj [k] None (walletState st))"
    and ev: "events st4 = events st @
       [Debug_forward_created ?fm, ToJSON_forward ?fm ?flag, Pack ?fj [k] None out]"
    and alt: "(\<exists>e. out = Inl e \<and> Inr w' = Inl e \<and> st' = st4) \<or>
     (\<exists>w1. out = Inr w1 \<and> forwardLoop E M rest w1 st4 = (Inr w', st'))"
    by blast
  from alt obtain w1 where w1: "out = Inr w1" "forwardLoop E M rest w1 st4 = (Inr w', st')"
    by auto
  show ?case
  proof (cases "rest = []")
    case True
    with w1 have "w' = w1" "st' = st4" by simp_all
    then have "last (forwards (events st')) = ?fm"
      by (simp add: ev forwards_append)
    then show ?thesis
      using out w1(1) \<open>w' = w1\<close> True by (intro exI[of _ "walletState st"]) simp
  next
    case False
    from Cons.IH[OF w1(2) False] show ?thesis using False by simp
  qed
qed

lemma packMessage_start:
  assumes "packMessage E M payload keys s = (r, st')"
  shows "\<exists>st3 out.
    out = fst (pack (wallet E)
      (agentMessage_toJSON M payload (useLegacyDidSovPrefix (config E)))
      (EnvelopeKeys.recipientKeys keys) (EnvelopeKeys.senderKey keys) s) \<and>
    events st3 =
       [ToJSON_payload (useLegacyDidSovPrefix (config E)),
        Debug_pack_outbound (agentMessage_toJSON M payload (useLegacyDidSovPrefix (config E))),
        Pack (agentMessage_toJSON M payload (useLegacyDidSovPrefix (config E)))
          (EnvelopeKeys.recipientKeys keys) (EnvelopeKeys.senderKey keys) out] \<and>
    keysArg st3 = keys \<and>
    recipientKeysVar st3 = EnvelopeKeys.recipientKeys keys \<and>
    ((\<exists>e. out = Inl e \<and> r = Inl e \<and> st' = st3) \<or>
     (\<exists>w1. out = Inr w1 \<and> forwardLoop E M (EnvelopeKeys.routingKeys keys) w1 st3 = (r, st')))"
proof -
  let ?flag = "useLegacyDidSovPrefix (config E)"
  let ?msg = "agentMessage_toJSON M payload ?flag"
  obtain out s1 where pk: "pack (wallet E) ?msg (EnvelopeKeys.recipientKeys keys)
      (EnvelopeKeys.senderKey keys) s = (out, s1)"
    by (cases "pack (wallet E) ?msg (EnvelopeKeys.recipientKeys keys) (EnvelopeKeys.senderKey keys) s")
  let ?st3 = "\<lparr>walletState = s1,
      events = [ToJSON_payload ?flag, Debug_pack_outbound ?msg,
        Pack ?msg (EnvelopeKeys.recipientKeys keys) (EnvelopeKeys.senderKey keys) out],
      keysArg = keys, recipientKeysVar = EnvelopeKeys.recipientKeys keys\<rparr>"
  have "(\<exists>e. out = Inl e \<and> r = Inl e \<and> st' = ?st3) \<or>
        (\<exists>w1. out = Inr w1 \<and> forwardLoop E M (EnvelopeKeys.routingKeys keys) w1 ?st3 = (r, st'))"
  proof (cases out)
    case (Inl e)
    with assms pk show ?thesis by (auto simp: packMessage_def callPack_def emit_def Let_def)
  next
    case (Inr w1)
    with assms pk show ?thesis by (auto simp: packMessage_def callPack_def emit_def Let_def)
  qed
  then show ?thesis
    by (intro exI[of _ ?st3] exI[of _ out]) (simp add: pk)
qed

lemma forwardLoop_recipientKeysVar:
  "forwardLoop E M rks w st = (Inr w', st') \<Longrightarrow> rks \<noteq> [] \<Longrightarrow>
   recipientKeysVar st' = [last rks]"
proof (induction rks arbitrary: w st)
  case Nil
  then show ?case by simp
next
  case (Cons k rest)
  from forwardLoop_step[OF Cons.prems(1)] obtain st4 out where
    rk: "recipientKeysVar st4 = [k]"
    and alt: "(\<exists>e. out = Inl e \<and> Inr w' = Inl e \<and> st' = st4) \<or>
     (\<exists>w1. out = Inr w1 \<and> forwardLoop E M rest w1 st4 = (Inr w', st'))"
    by blast
  from alt obtain w1 where w1: "forwardLoop E M rest w1 st4 = (Inr w', st')" by auto
  show ?case
  proof (cases "rest = []")
    case True
    with w1 rk show ?thesis by simp
  next
    case False
    from Cons.IH[OF w1 False] False show ?thesis by simp
  qed
qed

text \<open>The whole call: what the loop lemmas give for \<open>packMessage\<close>.\<close>

lemma packMessage_packs:
  assumes "packMessage E M payload keys s = (r, st')"
  shows "\<exists>new ws out.
     packCalls (events st') =
       \<lparr>callMessage = agentMessage_toJSON M payload (useLegacyDidSovPrefix (config E)),
        callRecipientKeys = EnvelopeKeys.recipientKeys keys,
        callSenderKey = EnvelopeKeys.senderKey keys, callOutcome = out\<rparr> # new \<and>
     out = fst (pack (wallet E) (agentMessage_toJSON M payload (useLegacyDidSovPrefix (config E)))
             (EnvelopeKeys.recipientKeys keys) (EnvelopeKeys.senderKey keys) s) \<and>
     length new \<le> length (EnvelopeKeys.routingKeys keys) \<and>
     ((\<exists>w. r = Inr w) \<longrightarrow> length new = length (EnvelopeKeys.routingKeys keys)) \<and>
     (\<forall>c \<in> set new. callSenderKey c = None) \<and>
     map callOutcome (packCalls (events st')) =
       map Inr ws @ (case r of Inl e \<Rightarrow> [Inl e] | Inr w \<Rightarrow> [])"
proof -
  let ?msg = "agentMessage_toJSON M payload (useLegacyDidSovPrefix (config E))"
  from packMessage_start[OF assms] obtain st3 out where
    out: "out = fst (pack (wallet E) ?msg (EnvelopeKeys.recipientKeys keys)
             (EnvelopeKeys.senderKey keys) s)"
    and ev: "events st3 = [ToJSON_payload (useLegacyDidSovPrefix (config E)),
        Debug_pack_outbound ?msg,
        Pack ?msg (EnvelopeKeys.recipientKeys keys) (EnvelopeKeys.senderKey keys) out]"
    and alt: "(\<exists>e. out = Inl e \<and> r = Inl e \<and> st' = st3) \<or>
     (\<exists>w1. out = Inr w1 \<and> forwardLoop E M (EnvelopeKeys.routingKeys keys) w1 st3 = (r, st'))"
    by blast
  let ?c = "\<lparr>callMessage = ?msg, callRecipientKeys = EnvelopeKeys.recipientKeys keys,
        callSenderKey = EnvelopeKeys.senderKey keys, callOutcome = out\<rparr>"
  have here: "packCalls (events st3) = [?c]" by (simp add: ev)
  from alt show ?thesis
  proof
    assume "\<exists>e. out = Inl e \<and> r = Inl e \<and> st' = st3"
    then obtain e where e: "out = Inl e" "r = Inl e" "st' = st3" by blast
    show ?thesis
      using here e out by (intro exI[of _ "[]"] exI[of _ "[]"] exI[of _ out]) simp
  next
    assume "\<exists>w1. out = Inr w1 \<and> forwardLoop E M (EnvelopeKeys.routingKeys keys) w1 st3 = (r, st')"
    then obtain w1 where w1: "out = Inr w1"
      "forwardLoop E M (EnvelopeKeys.routingKeys keys) w1 st3 = (r, st')" by blast
    from forwardLoop_packs[OF w1(2)] obtain new ws where new:
      "packCalls (events st') = packCalls (events st3) @ new"
      "length new \<le> length (EnvelopeKeys.routingKeys keys)"
      "(\<exists>w'. r = Inr w') \<longrightarrow> length new = length (EnvelopeKeys.routingKeys keys)"
      "\<forall>c \<in> set new. callSenderKey c = None"
      "map callOutcome new = map Inr ws @ (case r of Inl e \<Rightarrow> [Inl e] | Inr w' \<Rightarrow> [])"
      by blast
    show ?thesis
      using new here w1(1) out
      by (intro exI[of _ new] exI[of _ "w1 # ws"] exI[of _ out]) simp
  qed
qed

lemma packMessage_forwards:
  assumes "packMessage E M payload keys s = (r, st')"
  shows "length (forwards (events st')) \<le> length (EnvelopeKeys.routingKeys keys) \<and>
     ((\<exists>w. r = Inr w) \<longrightarrow> length (forwards (events st')) = length (EnvelopeKeys.routingKeys keys)) \<and>
     map to (forwards (events st')) =
       take (length (forwards (events st')))
         (index0 (EnvelopeKeys.recipientKeys keys) # map Some (EnvelopeKeys.routingKeys keys))"
proof -
  let ?msg = "agentMessage_toJSON M payload (useLegacyDidSovPrefix (config E))"
  from packMessage_start[OF assms] obtain st3 out where
    ev: "events st3 = [ToJSON_payload (useLegacyDidSovPrefix (config E)),
        Debug_pack_outbound ?msg,
        Pack ?msg (EnvelopeKeys.recipientKeys keys) (EnvelopeKeys.senderKey keys) out]"
    and rk: "recipientKeysVar st3 = EnvelopeKeys.recipientKeys keys"
    and alt: "(\<exists>e. out = Inl e \<and> r = Inl e \<and> st' = st3) \<or>
     (\<exists>w1. out = Inr w1 \<and> forwardLoop E M (EnvelopeKeys.routingKeys keys) w1 st3 = (r, st'))"
    by blast
  have here: "forwards (events st3) = []" by (simp add: ev)
  from alt show ?thesis
  proof
    assume "\<exists>e. out = Inl e \<and> r = Inl e \<and> st' = st3"
    with here show ?thesis by auto
  next
    assume "\<exists>w1. out = Inr w1 \<and> forwardLoop E M (EnvelopeKeys.routingKeys keys) w1 st3 = (r, st')"
    then obtain w1 where
      "forwardLoop E M (EnvelopeKeys.routingKeys keys) w1 st3 = (r, st')" by blast
    from forwardLoop_to[OF this] here rk show ?thesis by auto
  qed
qed

lemma packMessage_flags:
  assumes "packMessage E M payload keys s = (r, st')"
  shows "serializationFlags (events st') =
     replicate (Suc (length (forwards (events st')))) (useLegacyDidSovPrefix (config E))"
proof -
  let ?flag = "useLegacyDidSovPrefix (config E)"
  let ?msg = "agentMessage_toJSON M payload ?flag"
  from packMessage_start[OF assms] obtain st3 out where
    ev: "events st3 = [ToJSON_payload ?flag, Debug_pack_outbound ?msg,
        Pack ?msg (EnvelopeKeys.recipientKeys keys) (EnvelopeKeys.senderKey keys) out]"
    and alt: "(\<exists>e. out = Inl e \<and> r = Inl e \<and> st' = st3) \<or>
     (\<exists>w1. out = Inr w1 \<and> forwardLoop E M (EnvelopeKeys.routingKeys keys) w1 st3 = (r, st'))"
    by blast
  have here: "forwards (events st3) = []" "serializationFlags (events st3) = [?flag]"
    by (simp_all add: ev)
  from alt show ?thesis
  proof
    assume "\<exists>e. out = Inl e \<and> r = Inl e \<and> st' = st3"
    with here show ?thesis by auto
  next
    assume "\<exists>w1. out = Inr w1 \<and> forwardLoop E M (EnvelopeKeys.routingKeys keys) w1 st3 = (r, st')"
    then obtain w1 where
      "forwardLoop E M (EnvelopeKeys.routingKeys keys) w1 st3 = (r, st')" by blast
    from forwardLoop_flags[OF this] here show ?thesis by auto
  qed
qed


text \<open>
  The variant with in-place writes: its first step, and its agreement with
  \<open>packMessage\<close> for a wallet that leaves the array as it was passed.
\<close>

lemma packMessage_inPlace_start:
  assumes "packMessage_inPlace E packLeaves M payload keys s = (r, st')"
  shows "\<exists>st3 out.
    keysArg st3 = keys\<lparr>recipientKeys :=
       packLeaves (agentMessage_toJSON M payload (useLegacyDidSovPrefix (config E)))
         (EnvelopeKeys.recipientKeys keys) (EnvelopeKeys.senderKey keys) s\<rparr> \<and>
    ((\<exists>e. out = Inl e \<and> r = Inl e \<and> st' = st3) \<or>
     (\<exists>w1. out = Inr w1 \<and> forwardLoop E M (EnvelopeKeys.routingKeys keys) w1 st3 = (r, st')))"
proof -
  let ?msg = "agentMessage_toJSON M payload (useLegacyDidSovPrefix (config E))"
  let ?arr = "packLeaves ?msg (EnvelopeKeys.recipientKeys keys) (EnvelopeKeys.senderKey keys) s"
  obtain out s1 where pk: "pack (wallet E) ?msg (EnvelopeKeys.recipientKeys keys)
      (EnvelopeKeys.senderKey keys) s = (out, s1)"
    by (cases "pack (wallet E) ?msg (EnvelopeKeys.recipientKeys keys) (EnvelopeKeys.senderKey keys) s")
  let ?st3 = "\<lparr>walletState = s1,
      events = [ToJSON_payload (useLegacyDidSovPrefix (config E)), Debug_pack_outbound ?msg,
        Pack ?msg (EnvelopeKeys.recipientKeys keys) (EnvelopeKeys.senderKey keys) out],
      keysArg = keys\<lparr>recipientKeys := ?arr\<rparr>, recipientKeysVar = ?arr\<rparr>"
  have "(\<exists>e. out = Inl e \<and> r = Inl e \<and> st' = ?st3) \<or>
        (\<exists>w1. out = Inr w1 \<and> forwardLoop E M (EnvelopeKeys.routingKeys keys) w1 ?st3 = (r, st'))"
  proof (cases out)
    case (Inl e)
    with assms pk show ?thesis
      by (auto simp: packMessage_inPlace_def callPack_def emit_def Let_def)
  next
    case (Inr w1)
    with assms pk show ?thesis
      by (auto simp: packMessage_inPlace_def callPack_def emit_def Let_def)
  qed
  then show ?thesis
    by (intro exI[of _ ?st3] exI[of _ out]) simp
qed

lemma packMessage_inPlace_no_write:
  "packMessage_inPlace E (\<lambda>j rks sk s. rks) M payload keys s = packMessage E M payload keys s"
proof -
  let ?msg = "agentMessage_toJSON M payload (useLegacyDidSovPrefix (config E))"
  obtain out s1 where pk: "pack (wallet E) ?msg (EnvelopeKeys.recipientKeys keys)
      (EnvelopeKeys.senderKey keys) s = (out, s1)"
    by (cases "pack (wallet E) ?msg (EnvelopeKeys.recipientKeys keys) (EnvelopeKeys.senderKey keys) s")
  show ?thesis
    by (cases out)
      (simp_all add: packMessage_inPlace_def packMessage_def callPack_def emit_def Let_def pk)
qed

text \<open>Unfolding the test doubles, for evaluation at concrete inputs.\<close>

lemmas test_defs = testService_def testWallet_def testClasses_def packMessage_def
  callPack_def emit_def Let_def unpackMessage_def

section \<open>Claims about packMessage\<close>

text \<open>
  C1. When \<open>packMessage\<close> returns a wire message for \<open>routingKeys\<close> of length N, it has
  invoked \<open>wallet.pack\<close> exactly N + 1 times and built N forward messages. If the wallet's
  \<open>unpack\<close> gives back the message of every successful \<open>pack\<close>, then unwrapping the
  returned wire message once yields the serialized payload when N = 0 and the serialized
  forward message of the last hop when N \<ge> 1.
\<close>

theorem packMessage_hop_count:
  assumes "packMessage E M payload keys s = (Inr w, st')"
  shows "length (packCalls (events st')) = length (EnvelopeKeys.routingKeys keys) + 1 \<and>
     length (forwards (events st')) = length (EnvelopeKeys.routingKeys keys) \<and>
     ((\<forall>j rks sk s0 w0 s1 s2. pack (wallet E) j rks sk s0 = (Inr w0, s1) \<longrightarrow>
          (\<exists>c s3. unpack (wallet E) w0 s2 = (Inr c, s3) \<and> UnpackedMessageContext.message c = j)) \<longrightarrow>
      (\<forall>s2. \<exists>c s3. unpackMessage E w s2 = (Inr c, s3) \<and>
          UnpackedMessageContext.message c =
            (if EnvelopeKeys.routingKeys keys = []
             then agentMessage_toJSON M payload (useLegacyDidSovPrefix (config E))
             else forwardMessage_toJSON M (last (forwards (events st')))
                    (useLegacyDidSovPrefix (config E)))))"
proof (intro conjI impI allI)
  from packMessage_packs[OF assms]
  show "length (packCalls (events st')) = length (EnvelopeKeys.routingKeys keys) + 1"
    by auto
  from packMessage_forwards[OF assms]
  show "length (forwards (events st')) = length (EnvelopeKeys.routingKeys keys)"
    by auto
next
  fix s2
  let ?flag = "useLegacyDidSovPrefix (config E)"
  let ?msg = "agentMessage_toJSON M payload ?flag"
  let ?plain = "if EnvelopeKeys.routingKeys keys = [] then ?msg
     else forwardMessage_toJSON M (last (forwards (events st'))) ?flag"
  assume inv: "\<forall>j rks sk s0 w0 s1 s2. pack (wallet E) j rks sk s0 = (Inr w0, s1) \<longrightarrow>
     (\<exists>c s3. unpack (wallet E) w0 s2 = (Inr c, s3) \<and> UnpackedMessageContext.message c = j)"
  have "\<exists>rks sk s0. fst (pack (wallet E) ?plain rks sk s0) = Inr w"
  proof -
    from packMessage_start[OF assms] obtain st3 out where
      out: "out = fst (pack (wallet E) ?msg (EnvelopeKeys.recipientKeys keys)
             (EnvelopeKeys.senderKey keys) s)"
      and alt: "(\<exists>e. out = Inl e \<and> Inr w = Inl e \<and> st' = st3) \<or>
        (\<exists>w1. out = Inr w1 \<and>
           forwardLoop E M (EnvelopeKeys.routingKeys keys) w1 st3 = (Inr w, st'))"
      by blast
    from alt obtain w1 where w1: "out = Inr w1"
      "forwardLoop E M (EnvelopeKeys.routingKeys keys) w1 st3 = (Inr w, st')" by auto
    show ?thesis
    proof (cases "EnvelopeKeys.routingKeys keys = []")
      case True
      with w1 have "w = w1" by simp
      with out w1(1) True show ?thesis by auto
    next
      case False
      from forwardLoop_final[OF w1(2) False] False show ?thesis by auto
    qed
  qed
  then obtain rks sk s0 where "fst (pack (wallet E) ?plain rks sk s0) = Inr w" by blast
  then have "pack (wallet E) ?plain rks sk s0 = (Inr w, snd (pack (wallet E) ?plain rks sk s0))"
    by (metis prod.collapse)
  with inv have "\<exists>c s3. unpack (wallet E) w s2 = (Inr c, s3) \<and> UnpackedMessageContext.message c = ?plain"
    by blast
  then show "\<exists>c s3. unpackMessage E w s2 = (Inr c, s3) \<and> UnpackedMessageContext.message c = ?plain"
    by (simp add: unpackMessage_def)
qed

text \<open>
  An authenticated message to \<open>R1\<close> through the mediators \<open>M1\<close> and \<open>M2\<close>: three
  invocations, and the outer layer opens to the forward message addressed to \<open>M1\<close>.
\<close>

theorem packMessage_hop_count_witness:
  "fst (packMessage (testService [] True) testClasses ''ping''
      \<lparr>recipientKeys = [''R1''], routingKeys = [''M1'', ''M2''], senderKey = Some ''S''\<rparr> 0) =
     Inr (Sealed (Fwd True (Some ''M1'')
            (Sealed (Fwd True (Some ''R1'') (Sealed (Msg True ''ping'') [''R1''] (Some ''S'')))
               [''M1''] None)) [''M2''] None) \<and>
   length (packCalls (events (snd (packMessage (testService [] True) testClasses ''ping''
      \<lparr>recipientKeys = [''R1''], routingKeys = [''M1'', ''M2''], senderKey = Some ''S''\<rparr> 0)))) = 3 \<and>
   (\<exists>c s3. unpackMessage (testService [] True)
       (Sealed (Fwd True (Some ''M1'')
            (Sealed (Fwd True (Some ''R1'') (Sealed (Msg True ''ping'') [''R1''] (Some ''S'')))
               [''M1''] None)) [''M2''] None) 3 = (Inr c, s3) \<and>
      UnpackedMessageContext.message c =
        Fwd True (Some ''M1'')
            (Sealed (Fwd True (Some ''R1'') (Sealed (Msg True ''ping'') [''R1''] (Some ''S'')))
               [''M1''] None))"
proof -
  let ?E = "testService [] True"
  let ?K = "\<lparr>recipientKeys = [''R1''], routingKeys = [''M1'', ''M2''], senderKey = Some ''S''\<rparr>"
  let ?run = "packMessage ?E testClasses ''ping'' ?K 0"
  let ?W = "Sealed (Fwd True (Some ''M1'')
            (Sealed (Fwd True (Some ''R1'') (Sealed (Msg True ''ping'') [''R1''] (Some ''S'')))
               [''M1''] None)) [''M2''] None"
  have res: "fst ?run = Inr ?W" by (simp add: test_defs)
  then have run: "?run = (Inr ?W, snd ?run)" by (metis prod.collapse)
  have inv: "\<forall>j rks sk s0 w0 s1 s2. pack (wallet ?E) j rks sk s0 = (Inr w0, s1) \<longrightarrow>
     (\<exists>c s3. unpack (wallet ?E) w0 s2 = (Inr c, s3) \<and> UnpackedMessageContext.message c = j)"
    by (simp add: testService_def testWallet_def)
  have last: "last (forwards (events (snd ?run))) =
     \<lparr>to = Some ''M1'', message = Sealed (Fwd True (Some ''R1'')
         (Sealed (Msg True ''ping'') [''R1''] (Some ''S''))) [''M1''] None\<rparr>"
    by (simp add: test_defs)
  from packMessage_hop_count[OF run] inv
  have "length (packCalls (events (snd ?run))) = 3"
    and "\<exists>c s3. unpackMessage ?E ?W 3 = (Inr c, s3) \<and>
      UnpackedMessageContext.message c =
        forwardMessage_toJSON testClasses (last (forwards (events (snd ?run)))) True"
    by (simp_all add: testService_def)
  then show ?thesis using res unfolding last by (simp add: testClasses_def)
qed



text \<open>
  C3. In every run of \<open>packMessage\<close>, the first invocation of \<open>wallet.pack\<close> receives
  \<open>keys.senderKey\<close> and every later one (the forward layers) receives no sender key.
\<close>

theorem forward_layers_anonymous:
  assumes "packMessage E M payload keys s = (r, st')"
  shows "packCalls (events st') \<noteq> [] \<and>
     callSenderKey (hd (packCalls (events st'))) = EnvelopeKeys.senderKey keys \<and>
     (\<forall>c \<in> set (tl (packCalls (events st'))). callSenderKey c = None)"
proof -
  from packMessage_packs[OF assms] obtain new c where
    "packCalls (events st') = c # new" "callSenderKey c = EnvelopeKeys.senderKey keys"
    "\<forall>c \<in> set new. callSenderKey c = None"
    by force
  then show ?thesis by simp
qed

text \<open>
  An authenticated payload through two mediators: the sender key reaches the first
  invocation only.
\<close>

theorem forward_layers_anonymous_witness:
  "map callSenderKey (packCalls (events (snd (packMessage (testService [] False) testClasses
      ''ping'' \<lparr>recipientKeys = [''R1''], routingKeys = [''M1'', ''M2''],
                senderKey = Some ''S''\<rparr> 0)))) = [Some ''S'', None, None] \<and>
   callSenderKey (last (packCalls (events (snd (packMessage (testService [] False) testClasses
      ''ping'' \<lparr>recipientKeys = [''R1''], routingKeys = [''M1'', ''M2''],
                senderKey = Some ''S''\<rparr> 0))))) = None"
proof -
  let ?K = "\<lparr>recipientKeys = [''R1''], routingKeys = [''M1'', ''M2''], senderKey = Some ''S''\<rparr>"
  let ?run = "packMessage (testService [] False) testClasses ''ping'' ?K 0"
  let ?cs = "packCalls (events (snd ?run))"
  have cs: "map callSenderKey ?cs = [Some ''S'', None, None]"
    by (simp add: test_defs)
  have "length (map callSenderKey ?cs) = 3" unfolding cs by simp
  then have len: "length ?cs = 3" by simp
  have run: "?run = (fst ?run, snd ?run)" by simp
  obtain c0 c1 c2 where "?cs = [c0, c1, c2]"
    using len by (auto simp: length_Suc_conv numeral_3_eq_3)
  then have "last ?cs \<in> set (tl ?cs)" by simp
  with forward_layers_anonymous[OF run] have "callSenderKey (last ?cs) = None" by blast
  with cs show ?thesis by simp
qed


text \<open>
  C5. Suppose the wallet's \<open>unpack\<close> gives back the message and the sender key of
  every successful \<open>pack\<close>. Then with empty \<open>routingKeys\<close> the outcome of
  \<open>packMessage\<close> is the outcome of the one \<open>pack\<close> invocation, and unpacking a
  returned wire message yields the serialized payload as \<open>message\<close> and \<open>keys.senderKey\<close>
  (present or absent) as \<open>senderKey\<close>.
\<close>

theorem pack_unpack_round_trip:
  assumes inv: "\<forall>j rks sk s0 w0 s1 s2. pack (wallet E) j rks sk s0 = (Inr w0, s1) \<longrightarrow>
       (\<exists>c s3. unpack (wallet E) w0 s2 = (Inr c, s3) \<and>
          UnpackedMessageContext.message c = j \<and> UnpackedMessageContext.senderKey c = sk)"
    and noRouting: "EnvelopeKeys.routingKeys keys = []"
  shows "fst (packMessage E M payload keys s) =
       fst (pack (wallet E) (agentMessage_toJSON M payload (useLegacyDidSovPrefix (config E)))
              (EnvelopeKeys.recipientKeys keys) (EnvelopeKeys.senderKey keys) s) \<and>
     (\<forall>w s2. fst (packMessage E M payload keys s) = Inr w \<longrightarrow>
        (\<exists>c s3. unpackMessage E w s2 = (Inr c, s3) \<and>
           UnpackedMessageContext.message c =
             agentMessage_toJSON M payload (useLegacyDidSovPrefix (config E)) \<and>
           UnpackedMessageContext.senderKey c = EnvelopeKeys.senderKey keys))"
proof -
  let ?msg = "agentMessage_toJSON M payload (useLegacyDidSovPrefix (config E))"
  let ?p = "pack (wallet E) ?msg (EnvelopeKeys.recipientKeys keys) (EnvelopeKeys.senderKey keys) s"
  obtain r st' where run: "packMessage E M payload keys s = (r, st')"
    by (cases "packMessage E M payload keys s")
  from packMessage_start[OF run] obtain st3 out where
    out: "out = fst ?p"
    and alt: "(\<exists>e. out = Inl e \<and> r = Inl e \<and> st' = st3) \<or>
     (\<exists>w1. out = Inr w1 \<and> forwardLoop E M (EnvelopeKeys.routingKeys keys) w1 st3 = (r, st'))"
    by blast
  from alt noRouting have "r = out" by auto
  with out run have same: "fst (packMessage E M payload keys s) = fst ?p"
    by simp
  have "\<exists>c s3. unpackMessage E w s2 = (Inr c, s3) \<and> UnpackedMessageContext.message c = ?msg \<and>
           UnpackedMessageContext.senderKey c = EnvelopeKeys.senderKey keys"
    if "fst (packMessage E M payload keys s) = Inr w" for w s2
  proof -
    from that same have "?p = (Inr w, snd ?p)" by (metis prod.collapse)
    with inv show ?thesis unfolding unpackMessage_def by blast
  qed
  with same show ?thesis by blast
qed

text \<open>
  The test wallet satisfies the hypothesis; one authenticated message to \<open>R1\<close>.
\<close>

theorem pack_unpack_round_trip_witness:
  "fst (packMessage (testService [] False) testClasses ''ping''
      \<lparr>recipientKeys = [''R1''], routingKeys = [], senderKey = Some ''S''\<rparr> 0) =
     Inr (Sealed (Msg False ''ping'') [''R1''] (Some ''S'')) \<and>
   (\<exists>c s3. unpackMessage (testService [] False)
        (Sealed (Msg False ''ping'') [''R1''] (Some ''S'')) 1 = (Inr c, s3) \<and>
      UnpackedMessageContext.message c = Msg False ''ping'' \<and>
      UnpackedMessageContext.senderKey c = Some ''S'')"
proof -
  let ?E = "testService [] False"
  let ?K = "\<lparr>recipientKeys = [''R1''], routingKeys = [], senderKey = Some ''S''\<rparr>"
  let ?W = "Sealed (Msg False ''ping'') [''R1''] (Some ''S'')"
  have inv: "\<forall>j rks sk s0 w0 s1 s2. pack (wallet ?E) j rks sk s0 = (Inr w0, s1) \<longrightarrow>
       (\<exists>c s3. unpack (wallet ?E) w0 s2 = (Inr c, s3) \<and>
          UnpackedMessageContext.message c = j \<and> UnpackedMessageContext.senderKey c = sk)"
    by (simp add: testService_def testWallet_def)
  have noRouting: "EnvelopeKeys.routingKeys ?K = []" by simp
  have res: "fst (packMessage ?E testClasses ''ping'' ?K 0) = Inr ?W"
    by (simp add: test_defs)
  from pack_unpack_round_trip[OF inv noRouting, of testClasses "''ping''" 0] res
  have "\<exists>c s3. unpackMessage ?E ?W 1 = (Inr c, s3) \<and>
      UnpackedMessageContext.message c =
        agentMessage_toJSON testClasses ''ping'' (useLegacyDidSovPrefix (config ?E)) \<and>
      UnpackedMessageContext.senderKey c = EnvelopeKeys.senderKey ?K"
    by blast
  then show ?thesis using res by (simp add: testClasses_def testService_def)
qed

text \<open>
  C6. If the invocation of \<open>wallet.pack\<close> number k of a run fails with \<open>e\<close> (k = 0 the
  innermost encryption, k \<ge> 1 a forward layer), then \<open>packMessage\<close> fails with \<open>e\<close>. It
  returns no wire message, and the failing invocation is the last one made.
\<close>

theorem pack_failure_propagates:
  assumes "packMessage E M payload keys s = (r, st')"
    and "k < length (packCalls (events st'))"
    and "callOutcome (packCalls (events st') ! k) = Inl e"
  shows "r = Inl e \<and> Suc k = length (packCalls (events st'))"
proof -
  let ?cs = "packCalls (events st')"
  from packMessage_packs[OF assms(1)] obtain ws where
    outs: "map callOutcome ?cs = map Inr ws @ (case r of Inl e \<Rightarrow> [Inl e] | Inr w \<Rightarrow> [])"
    by blast
  have at: "map callOutcome ?cs ! k = Inl e" using assms(2,3) by simp
  have klen: "k < length (map callOutcome ?cs)" using assms(2) by simp
  show ?thesis
  proof (cases "k < length ws")
    case True
    then have "map callOutcome ?cs ! k = Inr (ws ! k)"
      by (simp add: outs nth_append)
    with at show ?thesis by simp
  next
    case False
    show ?thesis
    proof (cases r)
      case (Inl e')
      with outs have o: "map callOutcome ?cs = map Inr ws @ [Inl e']" by simp
      with klen False have k: "k = length ws" by simp
      with o at have "e' = e" by (simp add: nth_append)
      moreover from o have "length ?cs = Suc (length ws)"
        by (metis length_append_singleton length_map)
      ultimately show ?thesis using Inl k by simp
    next
      case (Inr w)
      with outs have "length (map callOutcome ?cs) = length ws" by simp
      with klen False show ?thesis by simp
    qed
  qed
qed

text \<open>
  The first mediator's key is unknown to the wallet: the second invocation fails and
  the third is never made.
\<close>

theorem pack_failure_propagates_witness:
  "callOutcome (packCalls (events (snd (packMessage (testService [''M1''] False) testClasses
      ''ping'' \<lparr>recipientKeys = [''R1''], routingKeys = [''M1'', ''M2''],
                senderKey = None\<rparr> 0))) ! 1) = Inl WalletItemNotFound \<and>
   fst (packMessage (testService [''M1''] False) testClasses
      ''ping'' \<lparr>recipientKeys = [''R1''], routingKeys = [''M1'', ''M2''],
                senderKey = None\<rparr> 0) = Inl WalletItemNotFound \<and>
   length (packCalls (events (snd (packMessage (testService [''M1''] False) testClasses
      ''ping'' \<lparr>recipientKeys = [''R1''], routingKeys = [''M1'', ''M2''],
                senderKey = None\<rparr> 0)))) = 2"
proof -
  let ?K = "\<lparr>recipientKeys = [''R1''], routingKeys = [''M1'', ''M2''], senderKey = None\<rparr>"
  let ?run = "packMessage (testService [''M1''] False) testClasses ''ping'' ?K 0"
  let ?cs = "packCalls (events (snd ?run))"
  have outs: "map callOutcome ?cs = [Inr (Sealed (Msg False ''ping'') [''R1''] None),
      Inl WalletItemNotFound]"
    by (simp add: test_defs)
  have "length (map callOutcome ?cs) = 2" unfolding outs by simp
  then have k: "1 < length ?cs" by simp
  have "map callOutcome ?cs ! 1 = Inl WalletItemNotFound" unfolding outs by simp
  with k have at: "callOutcome (?cs ! 1) = Inl WalletItemNotFound" by simp
  have run: "?run = (fst ?run, snd ?run)" by simp
  from pack_failure_propagates[OF run k at] at show ?thesis by simp
qed

text \<open>
  C7. In every run of \<open>packMessage\<close>, every serialization receives the configuration's
  \<open>useLegacyDidSovPrefix\<close>: the list of flags passed to \<open>toJSON\<close> is that one value,
  once for the payload and once for each forward message built.
\<close>

theorem legacy_prefix_threaded:
  "serializationFlags (events (snd (packMessage E M payload keys s))) =
     replicate (Suc (length (forwards (events (snd (packMessage E M payload keys s))))))
       (useLegacyDidSovPrefix (config E))"
proof -
  obtain r st' where run: "packMessage E M payload keys s = (r, st')"
    by (cases "packMessage E M payload keys s")
  from packMessage_flags[OF run] run show ?thesis by simp
qed

text \<open>
  C8, as amended. When \<open>packMessage\<close> fails, what it throws is exactly the value thrown
  by the last invocation of \<open>wallet.pack\<close> it made, unchanged; \<open>packMessage\<close> adds
  neither a hop index nor a key to it.
\<close>

theorem pack_error_unmodified:
  assumes "packMessage E M payload keys s = (Inl e, st')"
  shows "packCalls (events st') \<noteq> [] \<and>
     callOutcome (last (packCalls (events st'))) = Inl e \<and>
     length (packCalls (events st')) \<le> length (EnvelopeKeys.routingKeys keys) + 1"
proof -
  let ?cs = "packCalls (events st')"
  from packMessage_packs[OF assms] obtain new ws c where
    cs: "?cs = c # new"
    and len: "length new \<le> length (EnvelopeKeys.routingKeys keys)"
    and outs: "map callOutcome ?cs = map Inr ws @ [Inl e]"
    by force
  from cs have ne: "?cs \<noteq> []" by simp
  then have "callOutcome (last ?cs) = last (map callOutcome ?cs)"
    by (simp add: last_map)
  also have "\<dots> = Inl e" by (simp add: outs)
  finally show ?thesis using ne cs len by simp
qed

text \<open>
  A failure at the first forward layer.
\<close>

theorem pack_error_unmodified_witness:
  "fst (packMessage (testService [''M1''] False) testClasses ''ping''
      \<lparr>recipientKeys = [''R1''], routingKeys = [''M1''], senderKey = None\<rparr> 0) =
     Inl WalletItemNotFound \<and>
   callOutcome (last (packCalls (events (snd (packMessage (testService [''M1''] False)
      testClasses ''ping''
      \<lparr>recipientKeys = [''R1''], routingKeys = [''M1''], senderKey = None\<rparr> 0))))) =
     Inl WalletItemNotFound"
proof -
  let ?K = "\<lparr>recipientKeys = [''R1''], routingKeys = [''M1''], senderKey = None\<rparr>"
  let ?run = "packMessage (testService [''M1''] False) testClasses ''ping'' ?K 0"
  have res: "fst ?run = Inl WalletItemNotFound" by (simp add: test_defs)
  then have run: "?run = (Inl WalletItemNotFound, snd ?run)" by (metis prod.collapse)
  from pack_error_unmodified[OF run] res show ?thesis by simp
qed

text \<open>
  C8 as stated fails. With a wallet whose error carries no key, a failure at hop 0
  for key \<open>M1\<close> and a failure at hop 1 for key \<open>M2\<close> throw the same value, so the
  thrown value identifies neither the hop nor the key.
\<close>

theorem pack_error_names_no_hop_counterexample:
  "fst (packMessage (testService [''M1'', ''M2''] False) testClasses ''ping''
      \<lparr>recipientKeys = [''R1''], routingKeys = [''M1''], senderKey = None\<rparr> 0) =
     Inl WalletItemNotFound \<and>
   map callRecipientKeys (packCalls (events (snd (packMessage (testService [''M1'', ''M2''] False)
      testClasses ''ping''
      \<lparr>recipientKeys = [''R1''], routingKeys = [''M1''], senderKey = None\<rparr> 0)))) =
     [[''R1''], [''M1'']] \<and>
   fst (packMessage (testService [''M1'', ''M2''] False) testClasses ''ping''
      \<lparr>recipientKeys = [''R1''], routingKeys = [''M0'', ''M2''], senderKey = None\<rparr> 0) =
     Inl WalletItemNotFound \<and>
   map callRecipientKeys (packCalls (events (snd (packMessage (testService [''M1'', ''M2''] False)
      testClasses ''ping''
      \<lparr>recipientKeys = [''R1''], routingKeys = [''M0'', ''M2''], senderKey = None\<rparr> 0)))) =
     [[''R1''], [''M0''], [''M2'']]"
  by (simp add: test_defs)

text \<open>
  C9, as amended. \<open>packMessage\<close> itself does not write to the caller's \<open>keys\<close>: after
  every call \<open>routingKeys\<close> and \<open>senderKey\<close> are what they were, and the array
  \<open>recipientKeys\<close> holds what the wallet's first \<open>pack\<close> invocation, which is passed that
  very array, left in it. So \<open>keys\<close> is unchanged whenever the wallet leaves the array as
  it was, although the local variable \<open>recipientKeys\<close> is reassigned on each hop: after a
  call that returns with routing keys it holds the last routing key alone.
\<close>

theorem keys_after_packMessage:
  "keysArg (snd (packMessage_inPlace E packLeaves M payload keys s)) =
     keys\<lparr>recipientKeys :=
       packLeaves (agentMessage_toJSON M payload (useLegacyDidSovPrefix (config E)))
         (EnvelopeKeys.recipientKeys keys) (EnvelopeKeys.senderKey keys) s\<rparr> \<and>
   (packLeaves (agentMessage_toJSON M payload (useLegacyDidSovPrefix (config E)))
         (EnvelopeKeys.recipientKeys keys) (EnvelopeKeys.senderKey keys) s =
       EnvelopeKeys.recipientKeys keys \<longrightarrow>
      keysArg (snd (packMessage_inPlace E packLeaves M payload keys s)) = keys) \<and>
   (\<forall>w. fst (packMessage_inPlace E packLeaves M payload keys s) = Inr w \<and>
        EnvelopeKeys.routingKeys keys \<noteq> [] \<longrightarrow>
      recipientKeysVar (snd (packMessage_inPlace E packLeaves M payload keys s)) =
        [last (EnvelopeKeys.routingKeys keys)])"
proof -
  let ?arr = "packLeaves (agentMessage_toJSON M payload (useLegacyDidSovPrefix (config E)))
         (EnvelopeKeys.recipientKeys keys) (EnvelopeKeys.senderKey keys) s"
  obtain r st' where run: "packMessage_inPlace E packLeaves M payload keys s = (r, st')"
    by (cases "packMessage_inPlace E packLeaves M payload keys s")
  from packMessage_inPlace_start[OF run] obtain st3 out where
    k: "keysArg st3 = keys\<lparr>recipientKeys := ?arr\<rparr>"
    and alt: "(\<exists>e. out = Inl e \<and> r = Inl e \<and> st' = st3) \<or>
     (\<exists>w1. out = Inr w1 \<and> forwardLoop E M (EnvelopeKeys.routingKeys keys) w1 st3 = (r, st'))"
    by blast
  from alt have after: "keysArg st' = keys\<lparr>recipientKeys := ?arr\<rparr>"
    using k forwardLoop_keysArg by fastforce
  have same: "keysArg st' = keys" if "?arr = EnvelopeKeys.recipientKeys keys"
    using after that by simp
  have var: "recipientKeysVar st' = [last (EnvelopeKeys.routingKeys keys)]"
    if "r = Inr w" "EnvelopeKeys.routingKeys keys \<noteq> []" for w
  proof -
    from alt that(1) obtain w1 where
      "forwardLoop E M (EnvelopeKeys.routingKeys keys) w1 st3 = (Inr w, st')" by auto
    from forwardLoop_recipientKeysVar[OF this that(2)] show ?thesis .
  qed
  from after same var show ?thesis using run by simp
qed

text \<open>
  Two mediators and a wallet that leaves the array alone: the local variable ends as
  \<open>[M2]\<close>, the caller's object is intact.
\<close>

theorem keys_after_packMessage_witness:
  "keysArg (snd (packMessage_inPlace (testService [] False) testLeave testClasses ''ping''
      \<lparr>recipientKeys = [''R1''], routingKeys = [''M1'', ''M2''], senderKey = None\<rparr> 0)) =
     \<lparr>recipientKeys = [''R1''], routingKeys = [''M1'', ''M2''], senderKey = None\<rparr> \<and>
   recipientKeysVar (snd (packMessage_inPlace (testService [] False) testLeave testClasses
      ''ping''
      \<lparr>recipientKeys = [''R1''], routingKeys = [''M1'', ''M2''], senderKey = None\<rparr> 0)) =
     [''M2'']"
proof -
  let ?K = "\<lparr>recipientKeys = [''R1''], routingKeys = [''M1'', ''M2''], senderKey = None\<rparr>"
  let ?run = "packMessage_inPlace (testService [] False) testLeave testClasses ''ping'' ?K 0"
  have res: "fst ?run = Inr (Sealed (Fwd False (Some ''M1'')
       (Sealed (Fwd False (Some ''R1'') (Sealed (Msg False ''ping'') [''R1''] None))
          [''M1''] None)) [''M2''] None)"
    by (simp add: test_defs packMessage_inPlace_def testLeave_def)
  have ne: "EnvelopeKeys.routingKeys ?K \<noteq> []" by simp
  have leave: "testLeave (agentMessage_toJSON testClasses ''ping''
        (useLegacyDidSovPrefix (config (testService [] False))))
      (EnvelopeKeys.recipientKeys ?K) (EnvelopeKeys.senderKey ?K) 0 =
      EnvelopeKeys.recipientKeys ?K"
    by (simp add: testLeave_def)
  from keys_after_packMessage[of "testService [] False" testLeave testClasses "''ping''" ?K 0]
    res ne leave
  show ?thesis by simp
qed

text \<open>
  C9 as stated fails: a wallet that appends a key to the recipient array it is passed
  leaves the caller's \<open>keys.recipientKeys\<close> one key longer after a call that returns.
\<close>

theorem keys_unchanged_counterexample:
  "fst (packMessage_inPlace (testService [] False) testScribble testClasses ''ping''
      \<lparr>recipientKeys = [''R1''], routingKeys = [''M1''], senderKey = None\<rparr> 0) =
     Inr (Sealed (Fwd False (Some ''R1'') (Sealed (Msg False ''ping'') [''R1''] None))
            [''M1''] None) \<and>
   keysArg (snd (packMessage_inPlace (testService [] False) testScribble testClasses ''ping''
      \<lparr>recipientKeys = [''R1''], routingKeys = [''M1''], senderKey = None\<rparr> 0)) =
     \<lparr>recipientKeys = [''R1'', ''X''], routingKeys = [''M1''], senderKey = None\<rparr>"
  by (simp add: test_defs packMessage_inPlace_def testScribble_def)

text \<open>
  C4, as amended. With empty \<open>recipientKeys\<close>, \<open>packMessage\<close> makes no check of its own:
  its first invocation of \<open>wallet.pack\<close> receives the serialized payload, the empty
  recipient list and \<open>keys.senderKey\<close>; if the call fails, it fails with the value the
  last invocation threw, and with no routing keys its outcome is the outcome of that
  first invocation.
\<close>

theorem empty_recipients_reach_pack:
  assumes "EnvelopeKeys.recipientKeys keys = []"
    and "packMessage E M payload keys s = (r, st')"
  shows "packCalls (events st') \<noteq> [] \<and>
     hd (packCalls (events st')) =
       \<lparr>callMessage = agentMessage_toJSON M payload (useLegacyDidSovPrefix (config E)),
        callRecipientKeys = [], callSenderKey = EnvelopeKeys.senderKey keys,
        callOutcome = fst (pack (wallet E)
          (agentMessage_toJSON M payload (useLegacyDidSovPrefix (config E))) []
          (EnvelopeKeys.senderKey keys) s)\<rparr> \<and>
     (\<forall>e. r = Inl e \<longrightarrow> callOutcome (last (packCalls (events st'))) = Inl e) \<and>
     (EnvelopeKeys.routingKeys keys = [] \<longrightarrow>
        r = callOutcome (hd (packCalls (events st'))))"
proof -
  let ?cs = "packCalls (events st')"
  let ?msg = "agentMessage_toJSON M payload (useLegacyDidSovPrefix (config E))"
  from packMessage_packs[OF assms(2)] assms(1) obtain new ws where
    cs: "?cs = \<lparr>callMessage = ?msg, callRecipientKeys = [],
        callSenderKey = EnvelopeKeys.senderKey keys,
        callOutcome = fst (pack (wallet E) ?msg [] (EnvelopeKeys.senderKey keys) s)\<rparr> # new"
    and outs: "map callOutcome ?cs = map Inr ws @ (case r of Inl e \<Rightarrow> [Inl e] | Inr w \<Rightarrow> [])"
    by force
  from cs have ne: "?cs \<noteq> []" by simp
  have lastc: "callOutcome (last ?cs) = Inl e" if "r = Inl e" for e
  proof -
    from ne have "callOutcome (last ?cs) = last (map callOutcome ?cs)"
      by (simp add: last_map)
    with outs that show ?thesis by simp
  qed
  have single: "r = callOutcome (hd ?cs)" if "EnvelopeKeys.routingKeys keys = []"
  proof -
    from packMessage_start[OF assms(2)] that assms(1) cs show ?thesis by auto
  qed
  from cs ne lastc single show ?thesis by simp
qed

text \<open>
  Empty recipients, one mediator, a wallet that accepts every key.
\<close>

theorem empty_recipients_reach_pack_witness:
  "hd (packCalls (events (snd (packMessage (testService [] False) testClasses ''ping''
      \<lparr>recipientKeys = [], routingKeys = [''M1''], senderKey = None\<rparr> 0)))) =
     \<lparr>callMessage = Msg False ''ping'', callRecipientKeys = [], callSenderKey = None,
      callOutcome = Inr (Sealed (Msg False ''ping'') [] None)\<rparr>"
proof -
  let ?K = "\<lparr>recipientKeys = [], routingKeys = [''M1''], senderKey = None\<rparr>"
  let ?E = "testService [] False"
  let ?run = "packMessage ?E testClasses ''ping'' ?K 0"
  have empty: "EnvelopeKeys.recipientKeys ?K = []" by simp
  have run: "?run = (fst ?run, snd ?run)" by simp
  from empty_recipients_reach_pack[OF empty run]
  have "hd (packCalls (events (snd ?run))) =
       \<lparr>callMessage = agentMessage_toJSON testClasses ''ping'' (useLegacyDidSovPrefix (config ?E)),
        callRecipientKeys = [], callSenderKey = EnvelopeKeys.senderKey ?K,
        callOutcome = fst (pack (wallet ?E)
          (agentMessage_toJSON testClasses ''ping'' (useLegacyDidSovPrefix (config ?E))) []
          (EnvelopeKeys.senderKey ?K) 0)\<rparr>"
    by blast
  then show ?thesis by (simp add: testService_def testWallet_def testClasses_def)
qed

text \<open>
  C4 as stated fails: with empty \<open>recipientKeys\<close> and a wallet that accepts the empty
  list, \<open>packMessage\<close> invokes \<open>wallet.pack\<close> and returns its wire message.
\<close>

theorem empty_recipients_counterexample:
  "EnvelopeKeys.recipientKeys \<lparr>recipientKeys = [], routingKeys = [], senderKey = None\<rparr> = [] \<and>
   fst (packMessage (testService [] False) testClasses ''ping''
      \<lparr>recipientKeys = [], routingKeys = [], senderKey = None\<rparr> 0) =
     Inr (Sealed (Msg False ''ping'') [] None) \<and>
   packCalls (events (snd (packMessage (testService [] False) testClasses ''ping''
      \<lparr>recipientKeys = [], routingKeys = [], senderKey = None\<rparr> 0))) =
     [\<lparr>callMessage = Msg False ''ping'', callRecipientKeys = [], callSenderKey = None,
       callOutcome = Inr (Sealed (Msg False ''ping'') [] None)\<rparr>]"
  by (simp add: test_defs)

section \<open>Claims about createCredential\<close>

text \<open>Neither helper of \<open>createCredential\<close> invokes \<open>indy.issuerCreateCredential\<close>.\<close>

lemma createTailsReader_issuerCalls:
  assumes "createTailsReader S U path st = (r, st')"
  shows "issuerCalls (calls st') = issuerCalls (calls st)"
  using assms
  by (auto simp: createTailsReader_def catchIndy_def callExists_def
      callOpenBlobStorageReader_def Let_def issuerCalls_append
      split: prod.splits sum.splits if_splits)

text \<open>The first statement of the \<open>try\<close> block: the tails reader handle.\<close>

lemma tailsReaderHandle_cases:
  assumes "(case tailsFilePath opts of
              None \<Rightarrow> (Inr 0, st)
            | Some path \<Rightarrow> if path \<noteq> [] then createTailsReader S U path st else (Inr 0, st))
           = (r1, st1)"
  shows "issuerCalls (calls st1) = issuerCalls (calls st) \<and>
     (\<not> truthy (tailsFilePath opts) \<longrightarrow> r1 = Inr 0 \<and> st1 = st)"
  using assms createTailsReader_issuerCalls
  by (cases "tailsFilePath opts") (auto split: if_splits)

lemmas issuer_defs = createCredential_def createTailsReader_def catchIndy_def callExists_def
  callOpenBlobStorageReader_def callIssuerCreateCredential_def testIssuer_def testUtils_def
  Let_def

text \<open>
  C10, as amended. If \<open>revocationRegistryId\<close> or \<open>tailsFilePath\<close> is a non-empty
  string, \<open>createCredential\<close> throws and \<open>indy.issuerCreateCredential\<close> is not invoked.
  The error raised inside the \<open>try\<close> block is \<open>Revocation not supported yet\<close> when
  \<open>tailsFilePath\<close> is absent or empty, or when \<open>createTailsReader\<close> returned a handle;
  otherwise it is the error \<open>createTailsReader\<close> threw. What the call throws is what the
  \<open>catch\<close> handler makes of that error: the error itself when \<open>isIndyError\<close> is false of
  it, and an \<open>IndySdkError\<close> wrapping it when \<open>isIndyError\<close> holds of it.
  \<open>issuerCreateCredential\<close> is invoked only when both fields are absent or empty, and
  then with tails reader handle 0; with both absent or empty and a wallet handle at
  hand, it is invoked.
\<close>

theorem createCredential_revocation_guard:
  assumes "createCredential S U opts st = (r, st')"
  shows
    "(truthy (revocationRegistryId opts) \<or> truthy (tailsFilePath opts) \<longrightarrow>
        (\<exists>err. r = Inl err) \<and> issuerCalls (calls st') = issuerCalls (calls st)) \<and>
     (truthy (revocationRegistryId opts) \<and> \<not> truthy (tailsFilePath opts) \<longrightarrow>
        r = Inl (if isIndyError U (AriesFrameworkError ''Revocation not supported yet'')
                 then IndySdkError (AriesFrameworkError ''Revocation not supported yet'')
                 else AriesFrameworkError ''Revocation not supported yet'') \<and>
        st' = st) \<and>
     (\<forall>path h st1. tailsFilePath opts = Some path \<and> path \<noteq> [] \<and>
        createTailsReader S U path st = (Inr h, st1) \<longrightarrow>
        r = Inl (if isIndyError U (AriesFrameworkError ''Revocation not supported yet'')
                 then IndySdkError (AriesFrameworkError ''Revocation not supported yet'')
                 else AriesFrameworkError ''Revocation not supported yet'') \<and>
        st' = st1) \<and>
     (\<forall>path err st1. tailsFilePath opts = Some path \<and> path \<noteq> [] \<and>
        createTailsReader S U path st = (Inl err, st1) \<longrightarrow>
        r = Inl (if isIndyError U err then IndySdkError err else err) \<and> st' = st1) \<and>
     (issuerCalls (calls st') \<noteq> issuerCalls (calls st) \<longrightarrow>
        \<not> truthy (revocationRegistryId opts) \<and> \<not> truthy (tailsFilePath opts) \<and>
        (\<exists>h. wallet_handle S (world st) = Inr h \<and>
           calls st' = calls st @
             [IssuerCreateCredential h (credentialOffer opts) (credentialRequest opts)
                (credentialValues opts) (revocationRegistryId opts) 0])) \<and>
     (\<forall>h. \<not> truthy (revocationRegistryId opts) \<and> \<not> truthy (tailsFilePath opts) \<and>
        wallet_handle S (world st) = Inr h \<longrightarrow>
        calls st' = calls st @
          [IssuerCreateCredential h (credentialOffer opts) (credentialRequest opts)
             (credentialValues opts) (revocationRegistryId opts) 0])"
proof -
  let ?guard = "AriesFrameworkError ''Revocation not supported yet''"
  let ?H = "\<lambda>x. if isIndyError U x then IndySdkError x else x"
  obtain r1 st1 where hd: "(case tailsFilePath opts of
              None \<Rightarrow> (Inr 0, st)
            | Some path \<Rightarrow> if path \<noteq> [] then createTailsReader S U path st else (Inr 0, st))
           = (r1, st1)"
    by (cases "case tailsFilePath opts of
              None \<Rightarrow> (Inr 0, st)
            | Some path \<Rightarrow> if path \<noteq> [] then createTailsReader S U path st else (Inr 0, st)")
  from tailsReaderHandle_cases[OF hd] have
    same1: "issuerCalls (calls st1) = issuerCalls (calls st)"
    and notails: "\<not> truthy (tailsFilePath opts) \<longrightarrow> r1 = Inr 0 \<and> st1 = st"
    by blast+
  show ?thesis
  proof (cases "truthy (revocationRegistryId opts) \<or> truthy (tailsFilePath opts)")
    case True
    have samest: "st' = st1"
      and guard: "\<And>h. r1 = Inr h \<Longrightarrow> r = Inl (?H ?guard)"
      and reader: "\<And>err. r1 = Inl err \<Longrightarrow> r = Inl (?H err)"
      using assms True hd
      by (auto simp: createCredential_def catchIndy_def split: sum.splits)
    have fails: "\<exists>err. r = Inl err"
      using guard reader by (cases r1) auto
    have p1: "(\<exists>err. r = Inl err) \<and> issuerCalls (calls st') = issuerCalls (calls st)"
      using fails samest same1 by simp
    have p2: "r = Inl (?H ?guard) \<and> st' = st"
      if "\<not> truthy (tailsFilePath opts)"
      using that notails guard samest by auto
    have p3: "r = Inl (?H ?guard) \<and> st' = st1'"
      if "tailsFilePath opts = Some path" "path \<noteq> []"
        "createTailsReader S U path st = (Inr h, st1')"
      for path h st1'
      using that hd guard samest by auto
    have p4: "r = Inl (?H err) \<and> st' = st1'"
      if "tailsFilePath opts = Some path" "path \<noteq> []"
        "createTailsReader S U path st = (Inl err, st1')"
      for path err st1'
      using that hd reader samest by auto
    from p1 p2 p3 p4 True show ?thesis by blast
  next
    case False
    with notails have r1: "r1 = Inr 0" "st1 = st" by auto
    have reached: "calls st' = calls st @
             [IssuerCreateCredential h (credentialOffer opts) (credentialRequest opts)
                (credentialValues opts) (revocationRegistryId opts) 0]"
      if "wallet_handle S (world st) = Inr h" for h
      using assms False hd r1 that
      by (auto simp: createCredential_def catchIndy_def callIssuerCreateCredential_def
          split: sum.splits prod.splits)
    have reach: "issuerCalls (calls st') \<noteq> issuerCalls (calls st) \<longrightarrow>
        (\<exists>h. wallet_handle S (world st) = Inr h \<and>
           calls st' = calls st @
             [IssuerCreateCredential h (credentialOffer opts) (credentialRequest opts)
                (credentialValues opts) (revocationRegistryId opts) 0])"
      using assms False hd r1
      by (auto simp: createCredential_def catchIndy_def callIssuerCreateCredential_def
          split: sum.splits prod.splits)
    from reach reached False show ?thesis by auto
  qed
qed

text \<open>
  A registry id alone; a tails file that exists; a tails file that does not; and
  neither field.
\<close>

theorem createCredential_revocation_guard_witness:
  "fst (createCredential (testIssuer []) testUtils
      \<lparr>credentialOffer = ''o'', credentialRequest = ''r'', credentialValues = ''v'',
       revocationRegistryId = Some ''rev1'', tailsFilePath = None\<rparr>
      \<lparr>world = 0, calls = []\<rparr>) =
     Inl (AriesFrameworkError ''Revocation not supported yet'') \<and>
   calls (snd (createCredential (testIssuer []) testUtils
      \<lparr>credentialOffer = ''o'', credentialRequest = ''r'', credentialValues = ''v'',
       revocationRegistryId = Some ''rev1'', tailsFilePath = None\<rparr>
      \<lparr>world = 0, calls = []\<rparr>)) = [] \<and>
   fst (createCredential (testIssuer [''/tmp/tails'']) testUtils
      \<lparr>credentialOffer = ''o'', credentialRequest = ''r'', credentialValues = ''v'',
       revocationRegistryId = None, tailsFilePath = Some ''/tmp/tails''\<rparr>
      \<lparr>world = 0, calls = []\<rparr>) =
     Inl (AriesFrameworkError ''Revocation not supported yet'') \<and>
   fst (createCredential (testIssuer []) testUtils
      \<lparr>credentialOffer = ''o'', credentialRequest = ''r'', credentialValues = ''v'',
       revocationRegistryId = None, tailsFilePath = Some ''/tmp/tails''\<rparr>
      \<lparr>world = 0, calls = []\<rparr>) =
     Inl (AriesFrameworkError ''Tails file does not exist at path /tmp/tails'') \<and>
   calls (snd (createCredential (testIssuer []) testUtils
      \<lparr>credentialOffer = ''o'', credentialRequest = ''r'', credentialValues = ''v'',
       revocationRegistryId = None, tailsFilePath = None\<rparr>
      \<lparr>world = 0, calls = []\<rparr>)) =
     [IssuerCreateCredential 1 ''o'' ''r'' ''v'' None 0]"
proof -
  let ?st = "\<lparr>world = 0::nat, calls = []\<rparr> :: (string, string, string, nat) IssuerState"
  let ?A = "\<lparr>credentialOffer = ''o'', credentialRequest = ''r'', credentialValues = ''v'',
       revocationRegistryId = Some ''rev1'', tailsFilePath = None\<rparr>"
  let ?B = "\<lparr>credentialOffer = ''o'', credentialRequest = ''r'', credentialValues = ''v'',
       revocationRegistryId = None, tailsFilePath = Some ''/tmp/tails''\<rparr>"
  let ?C = "\<lparr>credentialOffer = ''o'', credentialRequest = ''r'', credentialValues = ''v'',
       revocationRegistryId = None, tailsFilePath = None\<rparr>"
  let ?runA = "createCredential (testIssuer []) testUtils ?A ?st"
  let ?runB = "createCredential (testIssuer [''/tmp/tails'']) testUtils ?B ?st"
  let ?runD = "createCredential (testIssuer []) testUtils ?B ?st"
  let ?runC = "createCredential (testIssuer []) testUtils ?C ?st"
  have notIndy: "\<not> isIndyError testUtils (AriesFrameworkError msg)" for msg
    by (simp add: testUtils_def)
  have a: "?runA = (fst ?runA, snd ?runA)" by simp
  have b: "?runB = (fst ?runB, snd ?runB)" by simp
  have c: "?runC = (fst ?runC, snd ?runC)" by simp
  have d: "?runD = (fst ?runD, snd ?runD)" by simp
  have reader: "createTailsReader (testIssuer [''/tmp/tails'']) testUtils ''/tmp/tails'' ?st =
      (Inr 7, \<lparr>world = 1, calls = [FileSystem_exists ''/tmp/tails'',
         OpenBlobStorageReader ''default'' ''/tmp'']\<rparr>)"
    by (simp add: issuer_defs)
  have noReader: "createTailsReader (testIssuer []) testUtils ''/tmp/tails'' ?st =
      (Inl (AriesFrameworkError ''Tails file does not exist at path /tmp/tails''),
       \<lparr>world = 0, calls = [FileSystem_exists ''/tmp/tails'']\<rparr>)"
    by (simp add: issuer_defs)
  have handle: "wallet_handle (testIssuer []) (world ?st) = Inr 1"
    by (simp add: testIssuer_def)
  note gA = createCredential_revocation_guard[OF a, THEN conjunct2, THEN conjunct1, rule_format]
  note gB = createCredential_revocation_guard[OF b, THEN conjunct2, THEN conjunct2,
      THEN conjunct1, rule_format]
  note gD = createCredential_revocation_guard[OF d, THEN conjunct2, THEN conjunct2,
      THEN conjunct2, THEN conjunct1, rule_format]
  note gC = createCredential_revocation_guard[OF c, THEN conjunct2, THEN conjunct2,
      THEN conjunct2, THEN conjunct2, THEN conjunct2, rule_format]
  have "truthy (revocationRegistryId ?A) \<and> \<not> truthy (tailsFilePath ?A)" by simp
  from gA[OF this]
  have A: "fst ?runA = Inl (AriesFrameworkError ''Revocation not supported yet'')"
    "calls (snd ?runA) = []"
    by (simp_all add: notIndy)
  have "tailsFilePath ?B = Some ''/tmp/tails'' \<and> ''/tmp/tails'' \<noteq> [] \<and>
      createTailsReader (testIssuer [''/tmp/tails'']) testUtils ''/tmp/tails'' ?st =
      (Inr 7, \<lparr>world = 1, calls = [FileSystem_exists ''/tmp/tails'',
         OpenBlobStorageReader ''default'' ''/tmp'']\<rparr>)"
    using reader by simp
  from gB[OF this]
  have B: "fst ?runB = Inl (AriesFrameworkError ''Revocation not supported yet'')"
    by (simp add: notIndy)
  have "tailsFilePath ?B = Some ''/tmp/tails'' \<and> ''/tmp/tails'' \<noteq> [] \<and>
      createTailsReader (testIssuer []) testUtils ''/tmp/tails'' ?st =
      (Inl (AriesFrameworkError ''Tails file does not exist at path /tmp/tails''),
       \<lparr>world = 0, calls = [FileSystem_exists ''/tmp/tails'']\<rparr>)"
    using noReader by simp
  from gD[OF this]
  have D: "fst ?runD =
      Inl (AriesFrameworkError ''Tails file does not exist at path /tmp/tails'')"
    by (simp add: notIndy)
  have "\<not> truthy (revocationRegistryId ?C) \<and> \<not> truthy (tailsFilePath ?C) \<and>
      wallet_handle (testIssuer []) (world ?st) = Inr 1"
    using handle by simp
  from gC[OF this]
  have C: "calls (snd ?runC) = [IssuerCreateCredential 1 ''o'' ''r'' ''v'' None 0]"
    by simp
  from A B C D show ?thesis by simp
qed

text \<open>
  C10 as stated fails twice. With a \<open>tailsFilePath\<close> whose file does not exist, the
  error thrown is the one of \<open>createTailsReader\<close>, not \<open>Revocation not supported yet\<close>.
  With \<open>revocationRegistryId\<close> provided as the empty string, which JavaScript treats as
  false, nothing is thrown and \<open>issuerCreateCredential\<close> is invoked.
\<close>

theorem createCredential_guard_counterexample:
  "createCredential (testIssuer []) testUtils
      \<lparr>credentialOffer = ''o'', credentialRequest = ''r'', credentialValues = ''v'',
       revocationRegistryId = None, tailsFilePath = Some ''/tmp/tails''\<rparr>
      \<lparr>world = 0, calls = []\<rparr> =
     (Inl (AriesFrameworkError ''Tails file does not exist at path /tmp/tails''),
      \<lparr>world = 0, calls = [FileSystem_exists ''/tmp/tails'']\<rparr>) \<and>
   createCredential (testIssuer []) testUtils
      \<lparr>credentialOffer = ''o'', credentialRequest = ''r'', credentialValues = ''v'',
       revocationRegistryId = Some [], tailsFilePath = None\<rparr>
      \<lparr>world = 0, calls = []\<rparr> =
     (Inr (''cred'', ''1''),
      \<lparr>world = 1, calls = [IssuerCreateCredential 1 ''o'' ''r'' ''v'' (Some []) 0]\<rparr>)"
  by (simp add: issuer_defs)

end
